theory Spec2Isabelle
  imports Main
begin

section \<open>The mana-cost tokenizer (CardBasicInfo.tsx, parseManaSymbols)\<close>

text \<open>
  The source:
  \<^verbatim>\<open>
  function parseManaSymbols(manaCost: string): string[] {
    if (!manaCost) return [];
    const symbolRegex = /\{([^}]+)\}/g;
    const symbols: string[] = [];
    let match;
    while ((match = symbolRegex.exec(manaCost)) !== null) {
      symbols.push(match[1]);
    }
    return symbols;
  }
  \<close>
  A JavaScript string is modelled as a \<open>string\<close>, a \<open>char\<close> standing for a code unit;
  the only characters the pattern tells apart are the two braces. The regular expression
  has no \<open>u\<close>, \<open>m\<close> or \<open>s\<close> flag, so the class \<open>[^}]\<close> accepts every code unit but the
  closing brace, line terminators included.
\<close>

subsection \<open>One attempt of the pattern at a fixed position\<close>

text \<open>The character class \<open>[^}]\<close>.\<close>

definition not_close :: "char \<Rightarrow> bool" where
  "not_close c = (c \<noteq> CHR ''}'')"

text \<open>
  The quantifier \<open>+\<close> is greedy: it first takes as many characters of the class as there are.
\<close>

definition greedy_run :: "string \<Rightarrow> nat" where
  "greedy_run t = length (takeWhile not_close t)"

text \<open>
  After the opening brace, with \<open>n\<close> repetitions of the class taken, the pattern needs the
  closing brace next. When it is not there the matcher backtracks: it gives one repetition
  back and tries again, down to one repetition (the \<open>+\<close> needs at least one). The result is
  capture group 1 and its length.
\<close>

fun backtrack :: "string \<Rightarrow> nat \<Rightarrow> (string \<times> nat) option" where
  "backtrack t 0 = None"
| "backtrack t (Suc n) =
     (case drop (Suc n) t of
        [] \<Rightarrow> backtrack t n
      | c # r \<Rightarrow> if c = CHR ''}'' then Some (take (Suc n) t, Suc n) else backtrack t n)"

text \<open>
  The whole pattern \<open>\{([^}]+)\}\<close> tried at the head of a suffix of the input: capture
  group 1 and the length of the whole match (the group and the two braces).
\<close>

fun match_at :: "string \<Rightarrow> (string \<times> nat) option" where
  "match_at [] = None"
| "match_at (c # t) =
     (if c = CHR ''{'' then
        (case backtrack t (greedy_run t) of
           None \<Rightarrow> None
         | Some (g, n) \<Rightarrow> Some (g, n + 2))
      else None)"

subsection \<open>RegExp.prototype.exec with the global flag\<close>

text \<open>
  The search for the leftmost match in a suffix: the offset of the match in the suffix,
  capture group 1 and the length of the match. The attempt at the end of the input fails,
  the pattern needing three characters.
\<close>

fun search :: "string \<Rightarrow> (nat \<times> string \<times> nat) option" where
  "search [] = None"
| "search (c # t) =
     (case match_at (c # t) of
        Some (g, n) \<Rightarrow> Some (0, g, n)
      | None \<Rightarrow> (case search t of
                   None \<Rightarrow> None
                 | Some (i, g, n) \<Rightarrow> Some (Suc i, g, n)))"

text \<open>
  \<open>exec\<close> on a global expression starts at \<open>lastIndex\<close>. On success it returns the match
  (here: \<open>match[1]\<close>) and sets \<open>lastIndex\<close> to the end of the match; on failure, and when
  \<open>lastIndex\<close> is beyond the input, it returns \<open>null\<close> and sets \<open>lastIndex\<close> to 0. The
  result is the pair of the returned value and the new \<open>lastIndex\<close>.
\<close>

definition regex_exec :: "string \<Rightarrow> nat \<Rightarrow> string option \<times> nat" where
  "regex_exec s lastIndex =
     (if length s < lastIndex then (None, 0)
      else (case search (drop lastIndex s) of
              None \<Rightarrow> (None, 0)
            | Some (i, g, n) \<Rightarrow> (Some g, lastIndex + i + n)))"

subsection \<open>The loop and the function\<close>

text \<open>
  The \<open>while\<close> loop runs as long as \<open>exec\<close> returns a match. Nothing in its form bounds the
  number of rounds, so it is a partial function: \<open>None\<close> is a loop that never ends.
\<close>

partial_function (option) exec_loop :: "string \<Rightarrow> nat \<Rightarrow> string list \<Rightarrow> string list option" where
  "exec_loop manaCost lastIndex symbols =
     (case regex_exec manaCost lastIndex of
        (None, _) \<Rightarrow> Some symbols
      | (Some g, lastIndex') \<Rightarrow> exec_loop manaCost lastIndex' (symbols @ [g]))"

declare exec_loop.simps [code]

text \<open>
  The argument is typed \<open>string\<close>, and the guard \<open>!manaCost\<close> also accepts \<open>null\<close> and
  \<open>undefined\<close> (here \<open>None\<close>), which like the empty string are falsy.
\<close>

definition parseManaSymbols :: "string option \<Rightarrow> string list option" where
  "parseManaSymbols manaCost =
     (case manaCost of
        None \<Rightarrow> Some []
      | Some s \<Rightarrow> if s = [] then Some [] else exec_loop s 0 [])"

text \<open>
  The loop as a total function of the part of the input that is still to be scanned: a
  match at the head gives its group and goes on behind the match, anything else is stepped
  over. The loop is shown to compute it (\<open>exec_loop_tokens\<close> below).
\<close>

function tokens :: "string \<Rightarrow> string list" where
  "tokens [] = []"
| "tokens (c # t) =
     (case match_at (c # t) of
        None \<Rightarrow> tokens t
      | Some (g, n) \<Rightarrow> g # tokens (drop n (c # t)))"
  by pat_completeness auto
termination
  by (relation "measure length") (auto split: if_splits option.splits)

subsection \<open>The tokenizer as section 4.1 of the specification words it\<close>

text \<open>
  ``Each maximal substring enclosed in a matching \<open>{\<close>...\<open>}\<close> pair (with \<open>...\<close> containing
  no further braces) yields one token equal to the enclosed text, in order of appearance;
  characters outside any brace pair are ignored.'' The scanner remembers the text since the
  last opening brace, if a pair is open: an opening brace starts a pair afresh, a closing
  brace ends the open pair and gives its text.
\<close>

fun tokenize_spec_from :: "string option \<Rightarrow> string \<Rightarrow> string list" where
  "tokenize_spec_from inside [] = []"
| "tokenize_spec_from inside (c # t) =
     (if c = CHR ''{'' then tokenize_spec_from (Some []) t
      else if c = CHR ''}'' then
        (case inside of
           None \<Rightarrow> tokenize_spec_from None t
         | Some body \<Rightarrow> body # tokenize_spec_from None t)
      else tokenize_spec_from (map_option (\<lambda>body. body @ [c]) inside) t)"

definition tokenize_spec :: "string \<Rightarrow> string list" where
  "tokenize_spec s = tokenize_spec_from None s"

text \<open>
  The inputs on which the two readings cannot differ: no brace pair is empty, and no
  opening brace stands inside a pair that is still open.
\<close>

fun plain_from :: "string option \<Rightarrow> string \<Rightarrow> bool" where
  "plain_from inside [] = True"
| "plain_from inside (c # t) =
     (if c = CHR ''{'' then inside = None \<and> plain_from (Some []) t
      else if c = CHR ''}'' then inside \<noteq> Some [] \<and> plain_from None t
      else plain_from (map_option (\<lambda>body. body @ [c]) inside) t)"

definition plain_cost :: "string \<Rightarrow> bool" where
  "plain_cost s = plain_from None s"

section \<open>The symbol classifier (CardBasicInfo.tsx, getManaSymbolColor)\<close>

text \<open>
  \<^verbatim>\<open>
  function getManaSymbolColor(symbol: string): string {
    const colorMap: Record<string, string> = {
      'W': 'bg-yellow-50 text-yellow-800 border-yellow-300',
      'U': 'bg-blue-100 text-blue-800 border-blue-300',
      'B': 'bg-gray-800 text-white border-gray-900',
      'R': 'bg-red-100 text-red-800 border-red-300',
      'G': 'bg-green-100 text-green-800 border-green-300',
      'C': 'bg-gray-300 text-gray-700 border-gray-400'
    };
    if (/^\d+$/.test(symbol)) {
      return 'bg-gray-200 text-gray-700 border-gray-300';
    }
    return colorMap[symbol] || 'bg-gray-200 text-gray-700 border-gray-300';
  }
  \<close>
\<close>

definition colorMap :: "(string \<times> string) list" where
  "colorMap =
     [(''W'', ''bg-yellow-50 text-yellow-800 border-yellow-300''),
      (''U'', ''bg-blue-100 text-blue-800 border-blue-300''),
      (''B'', ''bg-gray-800 text-white border-gray-900''),
      (''R'', ''bg-red-100 text-red-800 border-red-300''),
      (''G'', ''bg-green-100 text-green-800 border-green-300''),
      (''C'', ''bg-gray-300 text-gray-700 border-gray-400'')]"

text \<open>The literal of the numeric branch and the literal after \<open>||\<close>; they are the same text.\<close>

definition numeric_classes :: string where
  "numeric_classes = ''bg-gray-200 text-gray-700 border-gray-300''"

definition default_classes :: string where
  "default_classes = ''bg-gray-200 text-gray-700 border-gray-300''"

text \<open>
  \<open>/^\d+$/\<close>, without flags: \<open>\d\<close> is \<open>[0-9]\<close>, and the anchors are the two ends of the
  input, so the test holds of the non-empty strings of decimal digits.
\<close>

definition is_digit :: "char \<Rightarrow> bool" where
  "is_digit c = (c \<in> set ''0123456789'')"

definition test_digits :: "string \<Rightarrow> bool" where
  "test_digits symbol = (symbol \<noteq> [] \<and> list_all is_digit symbol)"

text \<open>
  \<open>colorMap\<close> is an object literal, so \<open>colorMap[symbol]\<close> is a property read: the object's
  own six properties first, then those it inherits from \<open>Object.prototype\<close> (ECMAScript,
  Properties of the Object Prototype Object, and Annex B), and \<open>undefined\<close> (here
  \<open>None\<close>) when there is none. An inherited property is a built-in function, or for
  \<open>__proto__\<close> the prototype object; such a value is not a string.
\<close>

datatype js_value = Str string | Builtin string

definition object_prototype :: "string list" where
  "object_prototype =
     [''constructor'', ''hasOwnProperty'', ''isPrototypeOf'', ''propertyIsEnumerable'',
      ''toLocaleString'', ''toString'', ''valueOf'', ''__proto__'',
      ''__defineGetter__'', ''__defineSetter__'', ''__lookupGetter__'', ''__lookupSetter__'']"

definition colorMap_get :: "string \<Rightarrow> js_value option" where
  "colorMap_get symbol =
     (case map_of colorMap symbol of
        Some v \<Rightarrow> Some (Str v)
      | None \<Rightarrow> if symbol \<in> set object_prototype then Some (Builtin symbol) else None)"

text \<open>Truthiness, for \<open>||\<close>: the empty string is falsy, functions and objects are truthy.\<close>

fun truthy_value :: "js_value \<Rightarrow> bool" where
  "truthy_value (Str s) = (s \<noteq> [])"
| "truthy_value (Builtin f) = True"

definition getManaSymbolColor :: "string \<Rightarrow> js_value" where
  "getManaSymbolColor symbol =
     (if test_digits symbol then Str numeric_classes
      else (case colorMap_get symbol of
              None \<Rightarrow> Str default_classes
            | Some v \<Rightarrow> if truthy_value v then v else Str default_classes))"

section \<open>The image viewer (CardImageViewer.tsx)\<close>

subsection \<open>The card and the choice of the image URL\<close>

text \<open>
  Modelled from the spec: the type \<open>Card\<close> of \<open>../types/card\<close> is imported by the component
  and is not among the sources. Section 3 of the specification gives a card a name (a
  string) and ``image URL(s) possibly at multiple resolutions''; the component reads
  \<open>card.name\<close>, \<open>card.imageUrls?.large\<close>, \<open>card.imageUrls?.normal\<close> and \<open>card.imageUrl\<close>.
  Every URL field may be absent (\<open>None\<close> is \<open>undefined\<close>), as the optional chaining of the
  source allows.
\<close>

record image_urls =
  large :: "string option"
  normal :: "string option"

record Card =
  name :: string
  imageUrls :: "image_urls option"
  imageUrl :: "string option"

text \<open>A string or \<open>undefined\<close> is truthy when it is a non-empty string.\<close>

definition truthy :: "string option \<Rightarrow> bool" where
  "truthy v = (case v of None \<Rightarrow> False | Some s \<Rightarrow> s \<noteq> [])"

text \<open>\<open>a || b\<close> is \<open>a\<close> when \<open>a\<close> is truthy and \<open>b\<close> otherwise, whatever \<open>b\<close> is.\<close>

definition js_or :: "string option \<Rightarrow> string option \<Rightarrow> string option" where
  "js_or a b = (if truthy a then a else b)"

text \<open>\<open>card.imageUrls?.large\<close> and \<open>card.imageUrls?.normal\<close>.\<close>

definition imageUrls_large :: "Card \<Rightarrow> string option" where
  "imageUrls_large c = (case imageUrls c of None \<Rightarrow> None | Some u \<Rightarrow> large u)"

definition imageUrls_normal :: "Card \<Rightarrow> string option" where
  "imageUrls_normal c = (case imageUrls c of None \<Rightarrow> None | Some u \<Rightarrow> normal u)"

text \<open>
  \<^verbatim>\<open>const imageUrl = card.imageUrls?.large || card.imageUrls?.normal || card.imageUrl;\<close>
  (\<open>||\<close> associates to the left).
\<close>

definition select_imageUrl :: "Card \<Rightarrow> string option" where
  "select_imageUrl c = js_or (js_or (imageUrls_large c) (imageUrls_normal c)) (imageUrl c)"

subsection \<open>The component instance: its props and its two state hooks\<close>

text \<open>
  \<^verbatim>\<open>
  const [imageError, setImageError] = useState(false);
  const [imageLoaded, setImageLoaded] = useState(false);
  const handleImageError = () => { setImageError(true); };
  const handleImageLoad = () => { setImageLoaded(true); };
  \<close>
  An instance is the card it was last rendered with and the values of its two hooks.
  \<open>useState\<close> takes its argument as the value at the first render only; at every later
  render of the instance it returns the value last set. The component has no effect hook
  and sets no \<open>key\<close>. The props \<open>className\<close> and \<open>priority\<close> reach only the style of the
  root and the \<open>priority\<close> attribute of the image and are left out.
\<close>

record viewer =
  card_prop :: Card
  imageError :: bool
  imageLoaded :: bool

definition mount :: "Card \<Rightarrow> viewer" where
  "mount c = \<lparr>card_prop = c, imageError = False, imageLoaded = False\<rparr>"

definition handleImageError :: "viewer \<Rightarrow> viewer" where
  "handleImageError v = v\<lparr>imageError := True\<rparr>"

definition handleImageLoad :: "viewer \<Rightarrow> viewer" where
  "handleImageLoad v = v\<lparr>imageLoaded := True\<rparr>"

text \<open>
  What can happen to a mounted instance: the image reports an error (\<open>onError\<close>), the image
  reports that it has loaded (\<open>onLoad\<close>), or the parent renders the instance again, with
  the same card or another one.
\<close>

datatype event = OnError | OnLoad | Rerender Card

fun step :: "event \<Rightarrow> viewer \<Rightarrow> viewer" where
  "step OnError v = handleImageError v"
| "step OnLoad v = handleImageLoad v"
| "step (Rerender c) v = v\<lparr>card_prop := c\<rparr>"

definition run :: "event list \<Rightarrow> viewer \<Rightarrow> viewer" where
  "run es v = foldl (\<lambda>w e. step e w) v es"

subsection \<open>What is rendered\<close>

text \<open>
  Inside the root element the component renders either the image, preceded by the loading
  skeleton as long as \<open>imageLoaded\<close> is false and transparent (\<open>opacity-0\<close>) until then, or
  the fallback block: the playing-card icon, the card's name and the line
  ``Image not available''.
\<close>

datatype view =
    ImageView (skeleton: bool) (src: "string option") (alt: string) (opaque: bool)
  | Fallback (icon: string) (caption: string) (notice: string)

text \<open>The icon is the character U+1F0CF, here the four bytes of its UTF-8 form.\<close>

definition joker :: string where
  "joker = [CHR 0xF0, CHR 0x9F, CHR 0x83, CHR 0x8F]"

definition render :: "viewer \<Rightarrow> view" where
  "render v =
     (if \<not> imageError v then
        ImageView (\<not> imageLoaded v) (select_imageUrl (card_prop v))
          (name (card_prop v) @ '' card image'') (imageLoaded v)
      else Fallback joker (name (card_prop v)) ''Image not available'')"

text \<open>
  The three states of section 4.3 of the specification, read off the two flags in the
  order the render tests them: the fallback is \<open>Failed\<close>, the image with the skeleton is
  \<open>Loading\<close>, the image without it is \<open>Loaded\<close>.
\<close>

datatype load_state = Loading | Loaded | Failed

definition state_of :: "viewer \<Rightarrow> load_state" where
  "state_of v = (if imageError v then Failed else if imageLoaded v then Loaded else Loading)"

text \<open>A re-render that supplies a card with the same image source as \<open>c\<close>.\<close>

fun same_source_rerender :: "Card \<Rightarrow> event \<Rightarrow> bool" where
  "same_source_rerender c (Rerender c') = (select_imageUrl c' = select_imageUrl c)"
| "same_source_rerender c e = False"

subsection \<open>Some cards, for the examples\<close>

definition island :: Card where
  "island = \<lparr>name = ''Island'', imageUrls = None, imageUrl = Some ''https://img.example/island.jpg''\<rparr>"

definition forest :: Card where
  "forest = \<lparr>name = ''Forest'',
     imageUrls = Some \<lparr>large = Some ''https://img.example/forest-large.jpg'', normal = None\<rparr>,
     imageUrl = None\<rparr>"

definition mountain :: Card where
  "mountain = \<lparr>name = ''Mountain'',
     imageUrls = Some \<lparr>large = Some ''https://img.example/mountain-large.jpg'',
                       normal = Some ''https://img.example/mountain-normal.jpg''\<rparr>,
     imageUrl = Some ''https://img.example/mountain.jpg''\<rparr>"

definition swamp :: Card where
  "swamp = \<lparr>name = ''Swamp'',
     imageUrls = Some \<lparr>large = Some '''', normal = Some ''https://img.example/swamp-normal.jpg''\<rparr>,
     imageUrl = Some ''https://img.example/swamp.jpg''\<rparr>"

definition plains :: Card where
  "plains = \<lparr>name = ''Plains'',
     imageUrls = Some \<lparr>large = None, normal = Some ''''\<rparr>,
     imageUrl = Some ''https://img.example/plains.jpg''\<rparr>"

section \<open>Properties of the tokenizer\<close>

subsection \<open>What one attempt of the pattern matches\<close>

lemma backtrack_below: "n < greedy_run t \<Longrightarrow> backtrack t n = None"
proof (induction n)
  case 0
  show ?case by simp
next
  case (Suc n)
  have lt: "Suc n < length (takeWhile not_close t)"
    using Suc.prems by (simp add: greedy_run_def)
  hence "not_close (t ! Suc n)"
    by (metis nth_mem set_takeWhileD takeWhile_nth)
  moreover have "Suc n < length t"
    using lt length_takeWhile_le[of not_close t] by linarith
  ultimately show ?case using Suc
    by (simp add: Cons_nth_drop_Suc[symmetric] not_close_def)
qed

lemma backtrack_greedy:
  "backtrack t (greedy_run t) =
     (if takeWhile not_close t \<noteq> [] \<and> dropWhile not_close t \<noteq> []
      then Some (takeWhile not_close t, greedy_run t) else None)"
proof (cases "greedy_run t")
  case 0
  then show ?thesis by (simp add: greedy_run_def)
next
  case (Suc n)
  have d: "drop (Suc n) t = dropWhile not_close t"
    using Suc by (metis dropWhile_eq_drop greedy_run_def)
  have tk: "take (Suc n) t = takeWhile not_close t"
    using Suc by (metis takeWhile_eq_take greedy_run_def)
  have ne: "takeWhile not_close t \<noteq> []"
    using Suc by (auto simp: greedy_run_def)
  have below: "backtrack t n = None"
    using Suc by (simp add: backtrack_below)
  have unfold: "backtrack t (Suc n) =
     (case dropWhile not_close t of
        [] \<Rightarrow> backtrack t n
      | c # r \<Rightarrow> if c = CHR ''}'' then Some (take (Suc n) t, Suc n) else backtrack t n)"
    by (simp only: backtrack.simps d)
  show ?thesis
  proof (cases "dropWhile not_close t")
    case Nil
    show ?thesis unfolding Suc unfold Nil by (simp add: below)
  next
    case (Cons c r)
    hence "\<not> not_close c"
      by (metis hd_dropWhile list.sel(1) list.distinct(1))
    hence "c = CHR ''}''" by (simp add: not_close_def)
    then show ?thesis unfolding Suc unfold Cons using tk ne Cons by simp
  qed
qed

text \<open>
  The pattern matches at the head of \<open>s\<close> exactly when \<open>s\<close> starts with an opening brace, a
  non-empty text without closing brace, and a closing brace; group 1 is that text.
\<close>

lemma match_at_iff:
  "match_at s = Some (g, n) \<longleftrightarrow>
     (\<exists>rest. s = CHR ''{'' # g @ CHR ''}'' # rest \<and> g \<noteq> [] \<and> CHR ''}'' \<notin> set g
        \<and> n = length g + 2)"
proof
  assume m: "match_at s = Some (g, n)"
  then obtain t where s: "s = CHR ''{'' # t"
    by (cases s) (auto split: if_splits)
  from m s obtain k where bt: "backtrack t (greedy_run t) = Some (g, k)" and nk: "n = k + 2"
    by (auto split: option.splits)
  have cond: "takeWhile not_close t \<noteq> [] \<and> dropWhile not_close t \<noteq> []"
    using bt unfolding backtrack_greedy by (metis option.distinct(1))
  have gk: "(takeWhile not_close t, greedy_run t) = (g, k)"
    using bt cond unfolding backtrack_greedy by (metis option.inject)
  have g: "g = takeWhile not_close t" and ne: "g \<noteq> []"
    and d: "dropWhile not_close t \<noteq> []" and n: "n = length g + 2"
    using gk cond nk by (auto simp: greedy_run_def)
  from d obtain c r where cr: "dropWhile not_close t = c # r"
    by (cases "dropWhile not_close t") auto
  hence "\<not> not_close c"
    by (metis hd_dropWhile list.sel(1) list.distinct(1))
  hence c: "c = CHR ''}''" by (simp add: not_close_def)
  have "t = g @ CHR ''}'' # r"
    using takeWhile_dropWhile_id[of not_close t] g cr c by simp
  moreover have "CHR ''}'' \<notin> set g"
    using g set_takeWhileD[of "CHR ''}''" not_close t] by (auto simp: not_close_def)
  ultimately show "\<exists>rest. s = CHR ''{'' # g @ CHR ''}'' # rest \<and> g \<noteq> []
      \<and> CHR ''}'' \<notin> set g \<and> n = length g + 2"
    using s ne n by blast
next
  assume "\<exists>rest. s = CHR ''{'' # g @ CHR ''}'' # rest \<and> g \<noteq> []
      \<and> CHR ''}'' \<notin> set g \<and> n = length g + 2"
  then obtain rest where s: "s = CHR ''{'' # g @ CHR ''}'' # rest" and ne: "g \<noteq> []"
    and nc: "CHR ''}'' \<notin> set g" and n: "n = length g + 2" by blast
  have all: "\<forall>x\<in>set g. not_close x"
    using nc by (auto simp: not_close_def)
  have tk: "takeWhile not_close (g @ CHR ''}'' # rest) = g"
    using all by (simp add: takeWhile_append2 not_close_def)
  have dr: "dropWhile not_close (g @ CHR ''}'' # rest) = CHR ''}'' # rest"
    using all by (simp add: dropWhile_append2 not_close_def)
  have gr: "greedy_run (g @ CHR ''}'' # rest) = length g"
    by (simp add: greedy_run_def tk)
  have bt: "backtrack (g @ CHR ''}'' # rest) (greedy_run (g @ CHR ''}'' # rest))
      = Some (g, length g)"
    by (subst backtrack_greedy) (simp add: tk dr gr ne)
  show "match_at s = Some (g, n)"
    using bt n by (simp add: s)
qed

lemma match_at_pos: "match_at s = Some (g, n) \<Longrightarrow> 0 < n \<and> n \<le> length s"
  by (auto simp: match_at_iff)

subsection \<open>The loop ends and computes \<open>tokens\<close>\<close>

lemma search_None: "search u = None \<Longrightarrow> tokens u = []"
  by (induction u) (auto split: option.splits)

lemma search_Some:
  "search u = Some (i, g, n) \<Longrightarrow>
     tokens u = g # tokens (drop (i + n) u) \<and> i + n \<le> length u \<and> 0 < n"
proof (induction u arbitrary: i)
  case Nil
  then show ?case by simp
next
  case (Cons c t)
  show ?case
  proof (cases "match_at (c # t)")
    case None
    with Cons.prems obtain j where j: "search t = Some (j, g, n)" and i: "i = Suc j"
      by (auto split: option.splits)
    from Cons.IH[OF j] show ?thesis using None i by simp
  next
    case (Some p)
    with Cons.prems have p: "p = (g, n)" and i: "i = 0"
      by (auto split: prod.splits)
    from Some p match_at_pos[of "c # t" g n] show ?thesis using i by simp
  qed
qed

text \<open>
  Every round of the loop moves \<open>lastIndex\<close> forward, so the distance to the end of the
  input bounds the number of rounds.
\<close>

lemma exec_loop_tokens:
  "lastIndex \<le> length s \<Longrightarrow>
     exec_loop s lastIndex acc = Some (acc @ tokens (drop lastIndex s))"
proof (induction "length s - lastIndex" arbitrary: lastIndex acc rule: less_induct)
  case less
  show ?case
  proof (cases "search (drop lastIndex s)")
    case None
    hence "regex_exec s lastIndex = (None, 0)"
      using less.prems by (simp add: regex_exec_def)
    thus ?thesis using search_None[OF None] by (subst exec_loop.simps) simp
  next
    case (Some r)
    obtain i g n where r: "r = (i, g, n)" by (cases r) auto
    note sm = search_Some[OF Some[unfolded r]]
    have ex: "regex_exec s lastIndex = (Some g, lastIndex + i + n)"
      using less.prems Some r by (simp add: regex_exec_def)
    have "i + n \<le> length s - lastIndex" using sm by simp
    hence le: "lastIndex + i + n \<le> length s" using less.prems by linarith
    have npos: "0 < n" using sm by simp
    have lt: "length s - (lastIndex + i + n) < length s - lastIndex"
      using npos le by linarith
    have "exec_loop s lastIndex acc = exec_loop s (lastIndex + i + n) (acc @ [g])"
      by (subst exec_loop.simps) (simp add: ex)
    also have "\<dots> = Some ((acc @ [g]) @ tokens (drop (lastIndex + i + n) s))"
      by (rule less.hyps[OF lt le])
    also have "drop (lastIndex + i + n) s = drop (i + n) (drop lastIndex s)"
      by (simp add: add.commute add.left_commute)
    finally show ?thesis using sm by simp
  qed
qed

lemma parse_tokens: "parseManaSymbols (Some s) = Some (tokens s)"
  by (simp add: parseManaSymbols_def exec_loop_tokens)

subsection \<open>Properties of \<open>tokens\<close>\<close>

lemma tokens_match:
  assumes "body \<noteq> []" and "CHR ''}'' \<notin> set body"
  shows "tokens (CHR ''{'' # body @ CHR ''}'' # rest) = body # tokens rest"
proof -
  have "match_at (CHR ''{'' # body @ CHR ''}'' # rest) = Some (body, length body + 2)"
    unfolding match_at_iff using assms by blast
  thus ?thesis by simp
qed

lemma tokens_skip:
  assumes "\<not> (c = CHR ''{'' \<and>
              (\<exists>body rest. body \<noteq> [] \<and> CHR ''}'' \<notin> set body \<and> t = body @ CHR ''}'' # rest))"
  shows "tokens (c # t) = tokens t"
proof -
  have "match_at (c # t) = None"
  proof (cases "match_at (c # t)")
    case None
    then show ?thesis .
  next
    case (Some p)
    obtain g n where p: "p = (g, n)" by (cases p) auto
    from Some[unfolded p match_at_iff] assms show ?thesis by auto
  qed
  thus ?thesis by simp
qed

lemma tokens_shape: "t \<in> set (tokens s) \<Longrightarrow> t \<noteq> [] \<and> CHR ''}'' \<notin> set t"
proof (induction s rule: tokens.induct)
  case 1
  then show ?case by simp
next
  case (2 c u)
  show ?case
  proof (cases "match_at (c # u)")
    case None
    with 2 show ?thesis by simp
  next
    case (Some p)
    obtain g n where p: "p = (g, n)" by (cases p) auto
    from Some[unfolded p match_at_iff] have g: "g \<noteq> [] \<and> CHR ''}'' \<notin> set g"
      by blast
    from "2.prems" Some p have "t = g \<or> t \<in> set (tokens (drop n (c # u)))" by simp
    thus ?thesis using g "2.IH"(2)[OF Some p[symmetric]] by blast
  qed
qed

text \<open>A token takes a brace of each kind of its own, whichever brace \<open>b\<close> is.\<close>

lemma tokens_length_le:
  "b = CHR ''{'' \<or> b = CHR ''}'' \<Longrightarrow> length (tokens s) \<le> count_list s b"
proof (induction s rule: tokens.induct)
  case 1
  show ?case by simp
next
  case (2 c t)
  show ?case
  proof (cases "match_at (c # t)")
    case None
    with 2 show ?thesis by simp
  next
    case (Some p)
    obtain g n where p: "p = (g, n)" by (cases p) auto
    from Some[unfolded p match_at_iff] obtain rest
      where s: "c # t = CHR ''{'' # g @ CHR ''}'' # rest" and n: "n = length g + 2"
      by blast
    have dr: "drop n (c # t) = rest" unfolding s n by simp
    have "length (tokens (c # t)) = Suc (length (tokens rest))"
      using Some p dr by simp
    also have "\<dots> \<le> Suc (count_list rest b)"
      using "2.IH"(2)[OF Some p[symmetric] "2.prems"] dr by simp
    also have "\<dots> \<le> count_list (c # t) b"
      unfolding s using "2.prems" by auto
    finally show ?thesis .
  qed
qed

subsection \<open>Where the code and the specification's wording agree\<close>

lemma spec_inside:
  "plain_from (Some b) u \<Longrightarrow>
     (\<exists>g rest. u = g @ CHR ''}'' # rest \<and> CHR ''}'' \<notin> set g \<and> b @ g \<noteq> []
        \<and> plain_from None rest
        \<and> tokenize_spec_from (Some b) u = (b @ g) # tokenize_spec_from None rest)
     \<or> (CHR ''}'' \<notin> set u \<and> tokenize_spec_from (Some b) u = [])"
proof (induction u arbitrary: b)
  case Nil
  show ?case by simp
next
  case (Cons c t)
  show ?case
  proof (cases "c = CHR ''}''")
    case True
    with Cons.prems have "b \<noteq> []" and "plain_from None t" by simp_all
    hence "c # t = [] @ CHR ''}'' # t \<and> CHR ''}'' \<notin> set [] \<and> b @ [] \<noteq> []
        \<and> plain_from None t
        \<and> tokenize_spec_from (Some b) (c # t) = (b @ []) # tokenize_spec_from None t"
      using True by simp
    thus ?thesis by blast
  next
    case False
    with Cons.prems have nb: "c \<noteq> CHR ''{''" and p: "plain_from (Some (b @ [c])) t"
      by (auto split: if_splits)
    have sp: "tokenize_spec_from (Some b) (c # t) = tokenize_spec_from (Some (b @ [c])) t"
      using False nb by simp
    from Cons.IH[OF p] show ?thesis
    proof
      assume "\<exists>g rest. t = g @ CHR ''}'' # rest \<and> CHR ''}'' \<notin> set g \<and> (b @ [c]) @ g \<noteq> []
        \<and> plain_from None rest
        \<and> tokenize_spec_from (Some (b @ [c])) t = ((b @ [c]) @ g) # tokenize_spec_from None rest"
      then obtain g rest where t: "t = g @ CHR ''}'' # rest" and g: "CHR ''}'' \<notin> set g"
        and pr: "plain_from None rest"
        and eq: "tokenize_spec_from (Some (b @ [c])) t = ((b @ [c]) @ g) # tokenize_spec_from None rest"
        by blast
      have "c # t = (c # g) @ CHR ''}'' # rest \<and> CHR ''}'' \<notin> set (c # g) \<and> b @ (c # g) \<noteq> []
        \<and> plain_from None rest
        \<and> tokenize_spec_from (Some b) (c # t) = (b @ (c # g)) # tokenize_spec_from None rest"
        using t g pr eq sp False by simp
      thus ?thesis by blast
    next
      assume "CHR ''}'' \<notin> set t \<and> tokenize_spec_from (Some (b @ [c])) t = []"
      thus ?thesis using sp False by simp
    qed
  qed
qed

lemma tokens_plain: "plain_from None s \<Longrightarrow> tokens s = tokenize_spec_from None s"
proof (induction s rule: length_induct)
  case (1 s)
  show ?case
  proof (cases s)
    case Nil
    then show ?thesis by simp
  next
    case (Cons c t)
    show ?thesis
    proof (cases "c = CHR ''{''")
      case False
      hence "tokens (c # t) = tokens t" by (simp add: tokens_skip)
      moreover have "tokenize_spec_from None (c # t) = tokenize_spec_from None t"
        using False by simp
      moreover have "plain_from None t"
        using "1.prems" False Cons by (simp split: if_splits)
      ultimately show ?thesis using "1.IH" Cons by simp
    next
      case True
      hence p: "plain_from (Some []) t" using "1.prems" Cons by simp
      have sp: "tokenize_spec_from None (c # t) = tokenize_spec_from (Some []) t"
        using True by simp
      from spec_inside[OF p] show ?thesis
      proof
        assume "\<exists>g rest. t = g @ CHR ''}'' # rest \<and> CHR ''}'' \<notin> set g \<and> [] @ g \<noteq> []
          \<and> plain_from None rest
          \<and> tokenize_spec_from (Some []) t = ([] @ g) # tokenize_spec_from None rest"
        then obtain g rest where t: "t = g @ CHR ''}'' # rest" and g: "CHR ''}'' \<notin> set g"
          and ne: "g \<noteq> []" and pr: "plain_from None rest"
          and eq: "tokenize_spec_from (Some []) t = g # tokenize_spec_from None rest"
          by auto
        have "tokens (c # t) = g # tokens rest"
          unfolding True t using ne g by (rule tokens_match)
        moreover have "tokens rest = tokenize_spec_from None rest"
          using "1.IH" pr Cons t by simp
        ultimately show ?thesis using sp eq Cons by simp
      next
        assume h: "CHR ''}'' \<notin> set t \<and> tokenize_spec_from (Some []) t = []"
        have "length (tokens (c # t)) \<le> count_list (c # t) (CHR ''}'')"
          by (rule tokens_length_le) simp
        hence "tokens (c # t) = []" using h True by simp
        thus ?thesis using sp h Cons by simp
      qed
    qed
  qed
qed

subsection \<open>The claims about the tokenizer\<close>

text \<open>
  C8: applied to the empty string or to an absent (null or undefined) input, the tokenizer
  returns the empty sequence.
\<close>

theorem parseManaSymbols_empty:
  "parseManaSymbols None = Some [] \<and> parseManaSymbols (Some '''') = Some []"
  by (simp add: parseManaSymbols_def)


text \<open>
  C9: every token that parseManaSymbols returns is non-empty and contains no closing brace;
  in particular the input \<open>{}\<close> yields no token.
\<close>

theorem parseManaSymbols_token_shape:
  "(parseManaSymbols manaCost = Some ts \<longrightarrow> (\<forall>t\<in>set ts. t \<noteq> [] \<and> CHR ''}'' \<notin> set t)) \<and>
   parseManaSymbols (Some ''{}'') = Some []"
proof
  show "parseManaSymbols manaCost = Some ts \<longrightarrow> (\<forall>t\<in>set ts. t \<noteq> [] \<and> CHR ''}'' \<notin> set t)"
  proof (cases manaCost)
    case None
    then show ?thesis by (auto simp: parseManaSymbols_def)
  next
    case (Some u)
    then show ?thesis using tokens_shape[of _ u] by (auto simp: parse_tokens)
  qed
next
  show "parseManaSymbols (Some ''{}'') = Some []"
    by code_simp
qed

theorem parseManaSymbols_token_shape_witness:
  "parseManaSymbols (Some ''{2}{U}'') = Some [''2'', ''U''] \<and>
   ''2'' \<noteq> [] \<and> CHR ''}'' \<notin> set ''2'' \<and> ''U'' \<noteq> [] \<and> CHR ''}'' \<notin> set ''U''"
proof -
  have h: "parseManaSymbols (Some ''{2}{U}'') = Some [''2'', ''U'']"
    by code_simp
  from parseManaSymbols_token_shape[of "Some ''{2}{U}''" "[''2'', ''U'']"] h
  show ?thesis by simp
qed

text \<open>
  C2, as the specification states it, fails on the code. On \<open>{{2}\<close> the only brace pair
  with a brace-free interior encloses \<open>2\<close>, and the code returns the token \<open>{2\<close>, which
  contains a brace; on \<open>{}\<close> the pair encloses the empty text, and the code returns no
  token.
\<close>

theorem parseManaSymbols_nested_brace:
  "parseManaSymbols (Some ''{{2}'') = Some [''{2''] \<and> tokenize_spec ''{{2}'' = [''2''] \<and>
   parseManaSymbols (Some ''{}'') = Some [] \<and> tokenize_spec ''{}'' = ['''']"
  by code_simp

text \<open>
  C2, amended: for every input string the tokenizer scans left to right. Where an opening
  brace is followed by a non-empty text without closing brace and then a closing brace, it
  returns that text as one token (the text may contain opening braces) and goes on behind
  the closing brace; any other character gives no token and the scan goes on at the next
  character. The tokens are returned in this order, and the empty input gives none. On an
  input in which no brace pair is empty and no opening brace stands inside an open pair,
  this is one token per brace pair, equal to the enclosed text, as the claim has it.
\<close>

theorem parseManaSymbols_scan:
  "parseManaSymbols (Some []) = Some [] \<and>
   (body \<noteq> [] \<and> CHR ''}'' \<notin> set body \<longrightarrow>
      parseManaSymbols (Some (CHR ''{'' # body @ CHR ''}'' # rest))
        = map_option ((#) body) (parseManaSymbols (Some rest))) \<and>
   (\<not> (c = CHR ''{'' \<and>
        (\<exists>body' rest'. body' \<noteq> [] \<and> CHR ''}'' \<notin> set body' \<and> t = body' @ CHR ''}'' # rest')) \<longrightarrow>
      parseManaSymbols (Some (c # t)) = parseManaSymbols (Some t)) \<and>
   (plain_cost s \<longrightarrow> parseManaSymbols (Some s) = Some (tokenize_spec s))"
proof (intro conjI impI)
  show "parseManaSymbols (Some []) = Some []"
    by (simp add: parseManaSymbols_def)
next
  assume "body \<noteq> [] \<and> CHR ''}'' \<notin> set body"
  hence "tokens (CHR ''{'' # body @ CHR ''}'' # rest) = body # tokens rest"
    using tokens_match[of body rest] by blast
  thus "parseManaSymbols (Some (CHR ''{'' # body @ CHR ''}'' # rest))
        = map_option ((#) body) (parseManaSymbols (Some rest))"
    by (simp only: parse_tokens option.map)
next
  assume "\<not> (c = CHR ''{'' \<and>
        (\<exists>body' rest'. body' \<noteq> [] \<and> CHR ''}'' \<notin> set body' \<and> t = body' @ CHR ''}'' # rest'))"
  hence "tokens (c # t) = tokens t"
    by (rule tokens_skip)
  thus "parseManaSymbols (Some (c # t)) = parseManaSymbols (Some t)"
    by (simp only: parse_tokens)
next
  assume "plain_cost s"
  thus "parseManaSymbols (Some s) = Some (tokenize_spec s)"
    by (simp add: parse_tokens plain_cost_def tokenize_spec_def tokens_plain)
qed

theorem parseManaSymbols_scan_witness:
  "''2'' \<noteq> [] \<and> CHR ''}'' \<notin> set ''2'' \<and>
   parseManaSymbols (Some ''{2}{U}{U}'') = map_option ((#) ''2'') (parseManaSymbols (Some ''{U}{U}'')) \<and>
   CHR ''X'' \<noteq> CHR ''{'' \<and>
   parseManaSymbols (Some ''X{R}Y'') = parseManaSymbols (Some ''{R}Y'') \<and>
   plain_cost ''{2}{U}{U}'' \<and> tokenize_spec ''{2}{U}{U}'' = [''2'', ''U'', ''U''] \<and>
   parseManaSymbols (Some ''{2}{U}{U}'') = Some [''2'', ''U'', ''U'']"
proof -
  note scan = parseManaSymbols_scan[of "''2''" "''{U}{U}''" "CHR ''X''" "''{R}Y''" "''{2}{U}{U}''"]
  have a: "''2'' \<noteq> [] \<and> CHR ''}'' \<notin> set ''2''"
    by simp
  have x: "CHR ''X'' \<noteq> CHR ''{''"
    by simp
  have p: "plain_cost ''{2}{U}{U}''"
    by (simp add: plain_cost_def)
  have q: "tokenize_spec ''{2}{U}{U}'' = [''2'', ''U'', ''U'']"
    by (simp add: tokenize_spec_def)
  from scan a
  have e2: "parseManaSymbols (Some ''{2}{U}{U}'')
      = map_option ((#) ''2'') (parseManaSymbols (Some ''{U}{U}''))"
    by simp
  from scan x
  have e3: "parseManaSymbols (Some ''X{R}Y'') = parseManaSymbols (Some ''{R}Y'')"
    by simp
  from scan p
  have e4: "parseManaSymbols (Some ''{2}{U}{U}'') = Some (tokenize_spec ''{2}{U}{U}'')"
    by blast
  from a x e2 e3 p q e4[unfolded q] show ?thesis
    by blast
qed

section \<open>Properties of the classifier\<close>

text \<open>
  C3, as the specification states it, fails on the code: the token \<open>C\<close> is neither a
  number nor one of W, U, B, R, G, and it is not given the default classes but classes of
  its own, from the sixth entry of the table.
\<close>

theorem getManaSymbolColor_colorless:
  "\<not> test_digits ''C'' \<and> ''C'' \<notin> set [''W'', ''U'', ''B'', ''R'', ''G''] \<and>
   getManaSymbolColor ''C'' = Str ''bg-gray-300 text-gray-700 border-gray-400'' \<and>
   getManaSymbolColor ''C'' \<noteq> Str default_classes"
  by (simp add: getManaSymbolColor_def test_digits_def is_digit_def colorMap_get_def
      colorMap_def default_classes_def)

text \<open>
  C3, amended: a token of one or more decimal digits is given the numeric classes; each of
  W, U, B, R, G and C is given the classes of its own entry, the six being pairwise
  different and different from the default; any other token that is not the name of a
  property of \<open>Object.prototype\<close> is given the default classes. The function returns for
  every token, it has no failing branch.
\<close>

theorem getManaSymbolColor_classes:
  "(test_digits t \<longrightarrow> getManaSymbolColor t = Str numeric_classes) \<and>
   getManaSymbolColor ''W'' = Str ''bg-yellow-50 text-yellow-800 border-yellow-300'' \<and>
   getManaSymbolColor ''U'' = Str ''bg-blue-100 text-blue-800 border-blue-300'' \<and>
   getManaSymbolColor ''B'' = Str ''bg-gray-800 text-white border-gray-900'' \<and>
   getManaSymbolColor ''R'' = Str ''bg-red-100 text-red-800 border-red-300'' \<and>
   getManaSymbolColor ''G'' = Str ''bg-green-100 text-green-800 border-green-300'' \<and>
   getManaSymbolColor ''C'' = Str ''bg-gray-300 text-gray-700 border-gray-400'' \<and>
   distinct (Str default_classes #
     map getManaSymbolColor [''W'', ''U'', ''B'', ''R'', ''G'', ''C'']) \<and>
   (\<not> test_digits t \<and> t \<notin> set [''W'', ''U'', ''B'', ''R'', ''G'', ''C'']
      \<and> t \<notin> set object_prototype \<longrightarrow> getManaSymbolColor t = Str default_classes)"
proof -
  have num: "test_digits t \<longrightarrow> getManaSymbolColor t = Str numeric_classes"
    by (simp add: getManaSymbolColor_def)
  have nd: "\<not> test_digits [c]" if "c \<in> set ''WUBRGC''" for c
    using that by (auto simp: test_digits_def is_digit_def)
  have w: "getManaSymbolColor ''W'' = Str ''bg-yellow-50 text-yellow-800 border-yellow-300''"
    by (simp add: getManaSymbolColor_def nd colorMap_get_def colorMap_def)
  have u: "getManaSymbolColor ''U'' = Str ''bg-blue-100 text-blue-800 border-blue-300''"
    by (simp add: getManaSymbolColor_def nd colorMap_get_def colorMap_def)
  have b: "getManaSymbolColor ''B'' = Str ''bg-gray-800 text-white border-gray-900''"
    by (simp add: getManaSymbolColor_def nd colorMap_get_def colorMap_def)
  have r: "getManaSymbolColor ''R'' = Str ''bg-red-100 text-red-800 border-red-300''"
    by (simp add: getManaSymbolColor_def nd colorMap_get_def colorMap_def)
  have g: "getManaSymbolColor ''G'' = Str ''bg-green-100 text-green-800 border-green-300''"
    by (simp add: getManaSymbolColor_def nd colorMap_get_def colorMap_def)
  have c: "getManaSymbolColor ''C'' = Str ''bg-gray-300 text-gray-700 border-gray-400''"
    by (simp add: getManaSymbolColor_def nd colorMap_get_def colorMap_def)
  have dist: "distinct (Str default_classes #
     map getManaSymbolColor [''W'', ''U'', ''B'', ''R'', ''G'', ''C''])"
    by (simp add: w u b r g c default_classes_def)
  have other: "\<not> test_digits t \<and> t \<notin> set [''W'', ''U'', ''B'', ''R'', ''G'', ''C'']
      \<and> t \<notin> set object_prototype \<longrightarrow> getManaSymbolColor t = Str default_classes"
  proof
    assume h: "\<not> test_digits t \<and> t \<notin> set [''W'', ''U'', ''B'', ''R'', ''G'', ''C'']
      \<and> t \<notin> set object_prototype"
    hence "map_of colorMap t = None"
      by (simp add: colorMap_def)
    hence "colorMap_get t = None"
      using h by (simp add: colorMap_get_def)
    thus "getManaSymbolColor t = Str default_classes"
      using h by (simp add: getManaSymbolColor_def)
  qed
  from num w u b r g c dist other show ?thesis by blast
qed

theorem getManaSymbolColor_classes_witness:
  "test_digits ''12'' \<and> getManaSymbolColor ''12'' = Str numeric_classes \<and>
   \<not> test_digits ''X'' \<and> ''X'' \<notin> set [''W'', ''U'', ''B'', ''R'', ''G'', ''C''] \<and>
   ''X'' \<notin> set object_prototype \<and> getManaSymbolColor ''X'' = Str default_classes"
proof -
  have d: "test_digits ''12''"
    by (simp add: test_digits_def is_digit_def)
  have x: "\<not> test_digits ''X'' \<and> ''X'' \<notin> set [''W'', ''U'', ''B'', ''R'', ''G'', ''C'']
      \<and> ''X'' \<notin> set object_prototype"
    by (simp add: test_digits_def is_digit_def object_prototype_def)
  from getManaSymbolColor_classes[of "''12''"] getManaSymbolColor_classes[of "''X''"] d x
  show ?thesis by blast
qed

lemma getManaSymbolColor_inherited:
  "getManaSymbolColor ''constructor'' = Builtin ''constructor''"
  by (simp add: getManaSymbolColor_def test_digits_def is_digit_def colorMap_get_def
      colorMap_def object_prototype_def)

section \<open>Properties of the image viewer\<close>

subsection \<open>Runs of events\<close>

lemma run_Nil: "run [] v = v"
  by (simp add: run_def)

lemma run_Cons: "run (e # es) v = run es (step e v)"
  by (simp add: run_def)

lemma imageError_step: "imageError v \<Longrightarrow> imageError (step e v)"
  by (cases e) (simp_all add: handleImageError_def handleImageLoad_def)

lemma imageLoaded_step: "imageLoaded v \<Longrightarrow> imageLoaded (step e v)"
  by (cases e) (simp_all add: handleImageError_def handleImageLoad_def)

lemma imageError_run: "imageError v \<Longrightarrow> imageError (run es v)"
  by (induction es arbitrary: v) (simp_all add: run_Nil run_Cons imageError_step)

lemma imageLoaded_run: "imageLoaded v \<Longrightarrow> imageLoaded (run es v)"
  by (induction es arbitrary: v) (simp_all add: run_Nil run_Cons imageLoaded_step)

lemma error_fired: "OnError \<in> set es \<Longrightarrow> imageError (run es v)"
proof (induction es arbitrary: v)
  case Nil
  then show ?case by simp
next
  case (Cons e es)
  show ?case
  proof (cases "e = OnError")
    case True
    hence "imageError (step e v)" by (simp add: handleImageError_def)
    thus ?thesis by (simp add: run_Cons imageError_run)
  next
    case False
    with Cons.prems have "OnError \<in> set es" by simp
    thus ?thesis by (simp add: run_Cons Cons.IH)
  qed
qed

lemma rerender_flags:
  "\<forall>e\<in>set es. same_source_rerender c e \<Longrightarrow>
     imageError (run es v) = imageError v \<and> imageLoaded (run es v) = imageLoaded v"
proof (induction es arbitrary: v)
  case Nil
  show ?case by (simp add: run_Nil)
next
  case (Cons e es)
  from Cons.prems obtain c' where e: "e = Rerender c'"
    by (cases e) auto
  from Cons.prems have "\<forall>e\<in>set es. same_source_rerender c e" by simp
  from Cons.IH[OF this, of "step e v"] show ?case
    by (simp add: run_Cons e)
qed

text \<open>The state is what the render shows.\<close>

lemma state_of_render:
  "state_of v =
     (case render v of
        Fallback i n m \<Rightarrow> Failed
      | ImageView sk u a opq \<Rightarrow> if sk then Loading else Loaded)"
  by (simp add: state_of_def render_def)

lemma render_Failed:
  "imageError v \<Longrightarrow> render v = Fallback joker (name (card_prop v)) ''Image not available''"
  by (simp add: render_def)

subsection \<open>The claims about the image viewer\<close>

text \<open>
  C6: for every card the source of the image is the first non-empty candidate in the order
  \<open>imageUrls.large\<close>, \<open>imageUrls.normal\<close>, \<open>imageUrl\<close>. A non-empty \<open>imageUrls.large\<close> is
  taken whatever the other two are; with \<open>imageUrls.large\<close> absent or empty, a non-empty
  \<open>imageUrls.normal\<close> is taken; with both absent or empty, or with no \<open>imageUrls\<close> at all,
  the source is the \<open>imageUrl\<close> field (which is then the only candidate left).
\<close>

theorem select_imageUrl_first_nonempty:
  "(imageUrls c = Some u \<and> large u = Some s \<and> s \<noteq> [] \<longrightarrow> select_imageUrl c = Some s) \<and>
   (imageUrls c = Some u \<and> (large u = None \<or> large u = Some []) \<and> normal u = Some s \<and> s \<noteq> []
      \<longrightarrow> select_imageUrl c = Some s) \<and>
   (imageUrls c = Some u \<and> (large u = None \<or> large u = Some [])
      \<and> (normal u = None \<or> normal u = Some []) \<longrightarrow> select_imageUrl c = imageUrl c) \<and>
   (imageUrls c = None \<longrightarrow> select_imageUrl c = imageUrl c)"
proof (intro conjI impI)
  assume "imageUrls c = Some u \<and> large u = Some s \<and> s \<noteq> []"
  thus "select_imageUrl c = Some s"
    by (simp add: select_imageUrl_def js_or_def truthy_def imageUrls_large_def)
next
  assume "imageUrls c = Some u \<and> (large u = None \<or> large u = Some []) \<and> normal u = Some s \<and> s \<noteq> []"
  thus "select_imageUrl c = Some s"
    by (auto simp: select_imageUrl_def js_or_def truthy_def imageUrls_large_def
        imageUrls_normal_def)
next
  assume "imageUrls c = Some u \<and> (large u = None \<or> large u = Some [])
      \<and> (normal u = None \<or> normal u = Some [])"
  thus "select_imageUrl c = imageUrl c"
    by (auto simp: select_imageUrl_def js_or_def truthy_def imageUrls_large_def
        imageUrls_normal_def)
next
  assume "imageUrls c = None"
  thus "select_imageUrl c = imageUrl c"
    by (simp add: select_imageUrl_def js_or_def truthy_def imageUrls_large_def
        imageUrls_normal_def)
qed

theorem select_imageUrl_first_nonempty_witness:
  "imageUrls mountain = Some \<lparr>large = Some ''https://img.example/mountain-large.jpg'',
                               normal = Some ''https://img.example/mountain-normal.jpg''\<rparr> \<and>
   imageUrl mountain = Some ''https://img.example/mountain.jpg'' \<and>
   select_imageUrl mountain = Some ''https://img.example/mountain-large.jpg'' \<and>
   imageUrls swamp = Some \<lparr>large = Some '''', normal = Some ''https://img.example/swamp-normal.jpg''\<rparr> \<and>
   imageUrl swamp = Some ''https://img.example/swamp.jpg'' \<and>
   select_imageUrl swamp = Some ''https://img.example/swamp-normal.jpg'' \<and>
   imageUrls plains = Some \<lparr>large = None, normal = Some ''''\<rparr> \<and>
   select_imageUrl plains = Some ''https://img.example/plains.jpg'' \<and>
   imageUrls island = None \<and>
   select_imageUrl island = Some ''https://img.example/island.jpg''"
proof -
  have m: "imageUrls mountain = Some \<lparr>large = Some ''https://img.example/mountain-large.jpg'',
                               normal = Some ''https://img.example/mountain-normal.jpg''\<rparr>"
    and mg: "imageUrl mountain = Some ''https://img.example/mountain.jpg''"
    by (simp_all add: mountain_def)
  have s: "imageUrls swamp = Some \<lparr>large = Some '''', normal = Some ''https://img.example/swamp-normal.jpg''\<rparr>"
    and sg: "imageUrl swamp = Some ''https://img.example/swamp.jpg''"
    by (simp_all add: swamp_def)
  have p: "imageUrls plains = Some \<lparr>large = None, normal = Some ''''\<rparr>"
    and pg: "imageUrl plains = Some ''https://img.example/plains.jpg''"
    by (simp_all add: plains_def)
  have i: "imageUrls island = None"
    and ig: "imageUrl island = Some ''https://img.example/island.jpg''"
    by (simp_all add: island_def)
  from select_imageUrl_first_nonempty[of mountain
      "\<lparr>large = Some ''https://img.example/mountain-large.jpg'',
        normal = Some ''https://img.example/mountain-normal.jpg''\<rparr>"
      "''https://img.example/mountain-large.jpg''"] m
  have r1: "select_imageUrl mountain = Some ''https://img.example/mountain-large.jpg''"
    by simp
  from select_imageUrl_first_nonempty[of swamp
      "\<lparr>large = Some '''', normal = Some ''https://img.example/swamp-normal.jpg''\<rparr>"
      "''https://img.example/swamp-normal.jpg''"] s
  have r2: "select_imageUrl swamp = Some ''https://img.example/swamp-normal.jpg''"
    by simp
  from select_imageUrl_first_nonempty[of plains "\<lparr>large = None, normal = Some ''''\<rparr>"] p pg
  have r3: "select_imageUrl plains = Some ''https://img.example/plains.jpg''"
    by simp
  from select_imageUrl_first_nonempty[of island] i ig
  have r4: "select_imageUrl island = Some ''https://img.example/island.jpg''"
    by simp
  from m mg r1 s sg r2 p r3 i r4 show ?thesis
    by blast
qed

text \<open>
  C4: for every image source the state of a freshly mounted viewer is Loading; when the
  success signal fires the state becomes Loaded, and it remains Loaded across the
  re-renders with the same source that follow.
\<close>

theorem load_then_stays_loaded:
  "state_of (mount c) = Loading \<and>
   state_of (step OnLoad (mount c)) = Loaded \<and>
   ((\<forall>e\<in>set es. same_source_rerender c e) \<longrightarrow>
      state_of (run es (step OnLoad (mount c))) = Loaded)"
proof (intro conjI impI)
  show "state_of (mount c) = Loading"
    by (simp add: state_of_def mount_def)
  show "state_of (step OnLoad (mount c)) = Loaded"
    by (simp add: state_of_def mount_def handleImageLoad_def)
  assume "\<forall>e\<in>set es. same_source_rerender c e"
  from rerender_flags[OF this, of "step OnLoad (mount c)"]
  show "state_of (run es (step OnLoad (mount c))) = Loaded"
    by (simp add: state_of_def mount_def handleImageLoad_def)
qed

theorem load_then_stays_loaded_witness:
  "same_source_rerender island (Rerender island) \<and>
   same_source_rerender island (Rerender (island\<lparr>name := ''Snow-Covered Island''\<rparr>)) \<and>
   state_of (run [Rerender island, Rerender (island\<lparr>name := ''Snow-Covered Island''\<rparr>)]
     (step OnLoad (mount island))) = Loaded"
  using load_then_stays_loaded[of island
      "[Rerender island, Rerender (island\<lparr>name := ''Snow-Covered Island''\<rparr>)]"]
  by (simp add: select_imageUrl_def imageUrls_large_def imageUrls_normal_def island_def)

text \<open>
  C5: whenever the error signal fires the component renders the fallback, the icon, the
  card's name and the notice that the image is not available, in place of the image, and
  it goes on rendering it whatever happens afterwards: the image is not requested again,
  and the handler only sets a flag, it has no failing branch.
\<close>

theorem error_renders_fallback:
  "render (step OnError v) = Fallback joker (name (card_prop v)) ''Image not available'' \<and>
   render (run es (step OnError v))
     = Fallback joker (name (card_prop (run es (step OnError v)))) ''Image not available''"
proof
  have e: "imageError (step OnError v)"
    by (simp add: handleImageError_def)
  have "card_prop (step OnError v) = card_prop v"
    by (simp add: handleImageError_def)
  with render_Failed[OF e]
  show "render (step OnError v) = Fallback joker (name (card_prop v)) ''Image not available''"
    by simp
  from e have "imageError (run es (step OnError v))"
    by (rule imageError_run)
  thus "render (run es (step OnError v))
     = Fallback joker (name (card_prop (run es (step OnError v)))) ''Image not available''"
    by (rule render_Failed)
qed

text \<open>
  C10: the two flags are monotone: a signal sets its flag, and a flag that is set stays
  set under every later event. When both the error and the success signal have fired, the
  state is Failed and the fallback is rendered: the error takes precedence.
\<close>

theorem flags_monotone:
  "imageError (step OnError v) \<and> imageLoaded (step OnLoad v) \<and>
   (imageError v \<longrightarrow> imageError (run es v)) \<and>
   (imageLoaded v \<longrightarrow> imageLoaded (run es v)) \<and>
   (OnError \<in> set es \<and> OnLoad \<in> set es \<longrightarrow>
      state_of (run es v) = Failed \<and>
      render (run es v) = Fallback joker (name (card_prop (run es v))) ''Image not available'')"
proof (intro conjI impI)
  show "imageError (step OnError v)"
    by (simp add: handleImageError_def)
  show "imageLoaded (step OnLoad v)"
    by (simp add: handleImageLoad_def)
  show "imageError (run es v)" if "imageError v"
    using that by (rule imageError_run)
  show "imageLoaded (run es v)" if "imageLoaded v"
    using that by (rule imageLoaded_run)
  assume "OnError \<in> set es \<and> OnLoad \<in> set es"
  hence e: "imageError (run es v)"
    by (simp add: error_fired)
  thus "state_of (run es v) = Failed"
    by (simp add: state_of_def)
  from e show "render (run es v)
      = Fallback joker (name (card_prop (run es v))) ''Image not available''"
    by (rule render_Failed)
qed

theorem flags_monotone_witness:
  "imageError (step OnError (step OnLoad (mount island))) \<and>
   imageLoaded (step OnError (step OnLoad (mount island))) \<and>
   imageError (run [OnLoad, OnError] (step OnError (step OnLoad (mount island)))) \<and>
   imageLoaded (run [OnLoad, OnError] (step OnError (step OnLoad (mount island)))) \<and>
   OnError \<in> set [OnLoad, OnError] \<and> OnLoad \<in> set [OnLoad, OnError] \<and>
   state_of (run [OnLoad, OnError] (step OnError (step OnLoad (mount island)))) = Failed \<and>
   render (run [OnLoad, OnError] (step OnError (step OnLoad (mount island))))
     = Fallback joker ''Island'' ''Image not available''"
  using flags_monotone[of "step OnError (step OnLoad (mount island))" "[OnLoad, OnError]"]
  by (simp add: run_def mount_def handleImageError_def handleImageLoad_def island_def)

text \<open>
  C1, as the specification states it, fails on the code. The viewer is mounted with one
  card and the image loads; a re-render with a card of another source leaves the state
  Loaded, it does not go back to Loading. In the same way a viewer that has failed stays
  Failed when the source changes. And an error signal moves a Loaded viewer to Failed.
\<close>

theorem source_change_does_not_reset:
  "select_imageUrl island \<noteq> select_imageUrl forest \<and>
   state_of (run [OnLoad] (mount island)) = Loaded \<and>
   state_of (run [OnLoad, Rerender forest] (mount island)) = Loaded \<and>
   state_of (run [OnError] (mount island)) = Failed \<and>
   state_of (run [OnError, Rerender forest] (mount island)) = Failed \<and>
   state_of (run [OnLoad, OnError] (mount island)) = Failed"
  by (simp add: run_def state_of_def mount_def handleImageError_def handleImageLoad_def
      select_imageUrl_def imageUrls_large_def imageUrls_normal_def js_or_def truthy_def
      island_def forest_def)

text \<open>
  C1, amended: once the state is Failed, no load or error signal and no change of the
  source moves it out of Failed. Once the state is Loaded, the load signal and a change of
  the source leave it Loaded, and the error signal moves it to Failed. No event re-enters
  Loading: a state that has left Loading never returns to it, the state is not reset when
  the source changes.
\<close>

theorem settled_state_transitions:
  "(state_of v = Failed \<longrightarrow> state_of (step e v) = Failed) \<and>
   (state_of v = Loaded \<longrightarrow> state_of (step e v) = (if e = OnError then Failed else Loaded)) \<and>
   (state_of v \<noteq> Loading \<longrightarrow> state_of (run es v) \<noteq> Loading)"
proof (intro conjI impI)
  show "state_of (step e v) = Failed" if "state_of v = Failed"
    using that by (cases e) (auto simp: state_of_def handleImageError_def handleImageLoad_def
        split: if_splits)
  show "state_of (step e v) = (if e = OnError then Failed else Loaded)" if "state_of v = Loaded"
    using that by (cases e) (auto simp: state_of_def handleImageError_def handleImageLoad_def
        split: if_splits)
  assume "state_of v \<noteq> Loading"
  hence "imageError v \<or> imageLoaded v"
    by (auto simp: state_of_def split: if_splits)
  hence "imageError (run es v) \<or> imageLoaded (run es v)"
    using imageError_run imageLoaded_run by blast
  thus "state_of (run es v) \<noteq> Loading"
    by (auto simp: state_of_def)
qed

theorem settled_state_transitions_witness:
  "state_of (step OnError (mount island)) = Failed \<and>
   state_of (step (Rerender forest) (step OnError (mount island))) = Failed \<and>
   state_of (step OnLoad (mount island)) = Loaded \<and>
   state_of (step (Rerender forest) (step OnLoad (mount island))) = Loaded \<and>
   state_of (step OnLoad (mount island)) \<noteq> Loading \<and>
   state_of (run [Rerender forest, OnLoad] (step OnLoad (mount island))) \<noteq> Loading"
  using settled_state_transitions[of "step OnError (mount island)" "Rerender forest" "[]"]
    settled_state_transitions[of "step OnLoad (mount island)" "Rerender forest"
      "[Rerender forest, OnLoad]"]
  by (simp add: state_of_def mount_def handleImageError_def handleImageLoad_def)

end
